theory Spec2Isabelle
  imports Complex_Main
begin

section \<open>Machine integers, errors and work-item scheduling\<close>

text \<open>
  The program is \<^verbatim>\<open>src/filter/main.cc\<close>: a host function \<^verbatim>\<open>profile_filter\<close> and two
  OpenCL kernels, \<^verbatim>\<open>filter\<close> and \<^verbatim>\<open>count_positive\<close>.

  A \<^verbatim>\<open>float\<close> is modelled as a real number: the program only copies floats and compares
  them with \<^verbatim>\<open>> 0\<close>. A buffer is a list; an access outside a buffer, which is undefined
  behaviour on the device, is the error \<open>OutOfBounds\<close>. An \<^verbatim>\<open>int\<close> is a mathematical
  integer kept in the 32-bit two's-complement range by \<open>int32\<close>.
\<close>

datatype error =
    OutOfBounds
  | UninitialisedRead
  | LengthError
  | InvalidBufferSize
  | InvalidGlobalWorkSize
  | InvalidWorkGroupSize

definition int32 :: "int \<Rightarrow> int" where
  "int32 x = (x + 2147483648) mod 4294967296 - 2147483648"

text \<open>The conversion of a \<^verbatim>\<open>size_t\<close> (the work-item functions return one) to \<^verbatim>\<open>int\<close>.\<close>

definition to_int :: "nat \<Rightarrow> int" where
  "to_int x = int32 (int x)"

text \<open>
  The work-items of a kernel, or the work-groups of an ND-range, run one after the other in
  the order of a schedule; the first error ends the run.
\<close>

fun run_items :: "('i \<Rightarrow> 'm \<Rightarrow> error + 'm) \<Rightarrow> 'i list \<Rightarrow> 'm \<Rightarrow> error + 'm" where
  "run_items body [] mem = Inr mem"
| "run_items body (i # sched) mem =
     (case body i mem of
        Inl e \<Rightarrow> Inl e
      | Inr mem' \<Rightarrow> run_items body sched mem')"

section \<open>The kernel \<^verbatim>\<open>filter\<close>\<close>

text \<open>
  \<^verbatim>\<open>
  kernel void filter(global const float *input, global int *res_size, global float *result) {
      const int i = get_global_id(0);
      const int n = get_global_size(0);
      int t = get_local_id(0);
      if (i == 0)
          res_size[0] = n;
  }
  \<close>
\<close>

record filter_mem =
  f_input :: "real list"
  f_res_size :: "int list"
  f_result :: "real list"

definition filter_item :: "nat \<Rightarrow> nat \<Rightarrow> nat \<Rightarrow> filter_mem \<Rightarrow> error + filter_mem" where
  "filter_item gsz lsz gid mem =
     (let i = to_int gid;
          n = to_int gsz;
          t = to_int (gid mod lsz)
      in if i = 0
         then (if 0 < length (f_res_size mem)
               then Inr (mem\<lparr>f_res_size := (f_res_size mem)[0 := n]\<rparr>)
               else Inl OutOfBounds)
         else Inr mem)"

definition filter_kernel :: "nat \<Rightarrow> nat \<Rightarrow> nat list \<Rightarrow> filter_mem \<Rightarrow> error + filter_mem" where
  "filter_kernel gsz lsz sched mem = run_items (filter_item gsz lsz) sched mem"

section \<open>The kernel \<^verbatim>\<open>count_positive\<close>\<close>

text \<open>
  \<^verbatim>\<open>
  #define BUFFSIZE 1024
  kernel void count_positive(global const float *a, global int *result) {
      const int m = get_local_size(0);
      int k = get_group_id(0);
      int t = get_local_id(0);
      local float buff[BUFFSIZE];

      buff[t] = a[k * m + t];
      barrier(CLK_LOCAL_MEM_FENCE);

      if (t == 0) {
          int cnt = 0;
          for (int j = 0; j < m; j++) {
              if (buff[j] > 0)
                  cnt++;
          }
          result[k] = cnt;
      }
  }
  \<close>
  The local buffer starts uninitialised: a slot is \<open>None\<close> until a lane stores into it.
\<close>

definition BUFFSIZE :: nat where
  "BUFFSIZE = 1024"

text \<open>Before the barrier: lane \<open>t\<close> of group \<open>k\<close> executes \<^verbatim>\<open>buff[t] = a[k * m + t]\<close>.\<close>

definition load_lane :: "real list \<Rightarrow> nat \<Rightarrow> nat \<Rightarrow> nat \<Rightarrow> real option list \<Rightarrow> error + real option list" where
  "load_lane a lsz gid_k lid buff =
     (let m = to_int lsz;
          k = to_int gid_k;
          t = to_int lid;
          idx = int32 (int32 (k * m) + t)
      in if idx < 0 \<or> int (length a) \<le> idx then Inl OutOfBounds
         else if t < 0 \<or> int (length buff) \<le> t then Inl OutOfBounds
         else Inr (buff[nat t := Some (a ! nat idx)]))"

text \<open>
  The loop \<^verbatim>\<open>for (int j = 0; j < m; j++) if (buff[j] > 0) cnt++;\<close> from the state
  \<open>(j, cnt)\<close>. Neither increment overflows: \<open>j < m\<close> and \<open>cnt \<le> j\<close>.
\<close>

function count_loop :: "real option list \<Rightarrow> int \<Rightarrow> int \<Rightarrow> int \<Rightarrow> error + int" where
  "count_loop buff m j cnt =
     (if j < m
      then (if j < 0 \<or> int (length buff) \<le> j then Inl OutOfBounds
            else (case buff ! nat j of
                    None \<Rightarrow> Inl UninitialisedRead
                  | Some x \<Rightarrow> count_loop buff m (j + 1) (if 0 < x then cnt + 1 else cnt)))
      else Inr cnt)"
  by pat_completeness auto
termination
  by (relation "measure (\<lambda>(buff, m, j, cnt). nat (m - j))") auto

text \<open>After the barrier: the body of \<^verbatim>\<open>if (t == 0) { ... result[k] = cnt; }\<close>.\<close>

definition count_lane :: "nat \<Rightarrow> nat \<Rightarrow> real option list \<Rightarrow> nat \<Rightarrow> int list \<Rightarrow> error + int list" where
  "count_lane lsz gid_k buff lid result =
     (let m = to_int lsz;
          k = to_int gid_k;
          t = to_int lid
      in if t = 0
         then (case count_loop buff m 0 0 of
                 Inl e \<Rightarrow> Inl e
               | Inr cnt \<Rightarrow>
                   if k < 0 \<or> int (length result) \<le> k then Inl OutOfBounds
                   else Inr (result[nat k := cnt]))
         else Inr result)"

text \<open>
  One work-group: every lane of the schedule \<open>lanes\<close> runs up to the barrier on the group's
  fresh local buffer, then every lane runs the rest on the global \<^verbatim>\<open>result\<close>.
\<close>

definition count_positive_group :: "real list \<Rightarrow> nat \<Rightarrow> nat list \<Rightarrow> nat \<Rightarrow> int list \<Rightarrow> error + int list" where
  "count_positive_group a lsz lanes gid_k result =
     (case run_items (load_lane a lsz gid_k) lanes (replicate BUFFSIZE None) of
        Inl e \<Rightarrow> Inl e
      | Inr buff \<Rightarrow> run_items (count_lane lsz gid_k buff) lanes result)"

text \<open>The ND-range: the work-groups of the schedule \<open>groups\<close>, each with local size \<open>lsz\<close>.\<close>

definition count_positive :: "real list \<Rightarrow> nat \<Rightarrow> nat list \<Rightarrow> nat list \<Rightarrow> int list \<Rightarrow> error + int list" where
  "count_positive a lsz groups lanes result =
     run_items (count_positive_group a lsz lanes) groups result"

text \<open>
  The number of positive elements among the indices \<open>k * L .. k * L + L - 1\<close> of \<open>a\<close>, and
  the local buffer after the lanes of a schedule have each stored their element: the two
  values the kernel is compared with.
\<close>

definition block_count :: "real list \<Rightarrow> nat \<Rightarrow> nat \<Rightarrow> int" where
  "block_count a L k = int (length (filter (\<lambda>i. 0 < a ! i) [k * L ..< k * L + L]))"

definition stored :: "real list \<Rightarrow> nat \<Rightarrow> nat \<Rightarrow> nat list \<Rightarrow> real option list \<Rightarrow> real option list" where
  "stored a lsz k lanes buff = fold (\<lambda>t b. b[t := Some (a ! (k * lsz + t))]) lanes buff"

section \<open>The host function \<^verbatim>\<open>filter\<close>\<close>

text \<open>
  Modelled from the spec: the host function \<^verbatim>\<open>filter(input, result, pred)\<close> that
  \<^verbatim>\<open>profile_filter\<close> calls is declared in \<^verbatim>\<open>filter.hh\<close>, which is not among the sources.
  The spec describes it as the sequential reference: a pure function of the input array and
  the predicate that, in a single pass, returns the elements satisfying the predicate in
  their original order.
\<close>

fun sequential_filter :: "'a list \<Rightarrow> ('a \<Rightarrow> bool) \<Rightarrow> 'a list" where
  "sequential_filter [] p = []"
| "sequential_filter (x # xs) p =
     (if p x then x # sequential_filter xs p else sequential_filter xs p)"

section \<open>The host function \<^verbatim>\<open>profile_filter\<close>\<close>

text \<open>
  The host state holds the local variables of \<^verbatim>\<open>profile_filter\<close>, the contents of the two
  device buffers, the commands submitted to \<^verbatim>\<open>opencl.queue\<close> and the arguments of the call
  of \<^verbatim>\<open>verify_vector\<close>. A \<^verbatim>\<open>std::vector\<close> is the list of its elements; its capacity is not
  kept. The clock readings and \<^verbatim>\<open>print\<close> are left out.
\<close>

datatype command =
    CopyIn string
  | NDRangeKernel string nat nat
  | CopyOut string

record host =
  input :: "real list"
  bins :: "int list"
  result :: "real list"
  result_gpu :: "real list"
  d_input :: "real list"
  d_bins :: "int list"
  queue :: "command list"
  verify_args :: "(real list \<times> real list) option"

definition init :: host where
  "init = \<lparr>input = [], bins = [], result = [], result_gpu = [], d_input = [], d_bins = [],
           queue = [], verify_args = None\<rparr>"

definition local_sz :: int where
  "local_sz = 256"

text \<open>The quotient of two \<^verbatim>\<open>int\<close>s in C++ truncates towards zero.\<close>

definition cpp_div :: "int \<Rightarrow> int \<Rightarrow> int" where
  "cpp_div a b = sgn a * sgn b * (\<bar>a\<bar> div \<bar>b\<bar>)"

text \<open>
  \<^verbatim>\<open>auto input = random_std_vector<float>(n);\<close> The helper is not among the sources; the
  vector it returns is the parameter \<open>rnd\<close>.
\<close>

definition make_input :: "real list \<Rightarrow> host \<Rightarrow> error + host" where
  "make_input rnd s = Inr (s\<lparr>input := rnd\<rparr>)"

text \<open>
  \<^verbatim>\<open>std::vector<int> bins(n / local_sz);\<close> A negative count converts to a \<^verbatim>\<open>size_t\<close>
  above \<^verbatim>\<open>max_size()\<close>, and the constructor throws \<^verbatim>\<open>std::length_error\<close>.
\<close>

definition make_bins :: "int \<Rightarrow> host \<Rightarrow> error + host" where
  "make_bins n s =
     (let c = cpp_div n local_sz
      in if c < 0 then Inl LengthError
         else Inr (s\<lparr>bins := replicate (nat c) 0\<rparr>))"

text \<open>\<^verbatim>\<open>std::vector<float> result, result_gpu;\<close>\<close>

definition make_results :: "host \<Rightarrow> error + host" where
  "make_results s = Inr (s\<lparr>result := [], result_gpu := []\<rparr>)"

text \<open>
  \<^verbatim>\<open>result.reserve(n); result_gpu.reserve(n);\<close> A call of \<^verbatim>\<open>reserve\<close> changes the capacity
  only, and throws \<^verbatim>\<open>std::length_error\<close> for a negative \<open>n\<close>.
\<close>

definition reserve_result :: "int \<Rightarrow> host \<Rightarrow> error + host" where
  "reserve_result n s = (if n < 0 then Inl LengthError else Inr s)"

definition reserve_result_gpu :: "int \<Rightarrow> host \<Rightarrow> error + host" where
  "reserve_result_gpu n s = (if n < 0 then Inl LengthError else Inr s)"

text \<open>\<^verbatim>\<open>filter(input, result, [] (float x) { return x > 0; });\<close>\<close>

definition host_filter :: "host \<Rightarrow> error + host" where
  "host_filter s = Inr (s\<lparr>result := sequential_filter (input s) (\<lambda>x. 0 < x)\<rparr>)"

text \<open>
  \<^verbatim>\<open>cl::Buffer d_input(opencl.queue, begin(input), end(input), false);\<close> creates a buffer of
  \<^verbatim>\<open>sizeof(float)\<close> bytes per element and copies the vector into it; OpenCL refuses a
  buffer of size zero with \<^verbatim>\<open>CL_INVALID_BUFFER_SIZE\<close>, which the C++ binding throws.
\<close>

definition create_d_input :: "host \<Rightarrow> error + host" where
  "create_d_input s =
     (if 4 * length (input s) = 0 then Inl InvalidBufferSize
      else Inr (s\<lparr>d_input := input s, queue := queue s @ [CopyIn ''d_input'']\<rparr>))"

text \<open>
  \<^verbatim>\<open>cl::Buffer d_bins(opencl.context, CL_MEM_READ_WRITE, bins.size()*sizeof(int));\<close> The
  new buffer is not initialised: \<open>fresh i\<close> is what its \<open>i\<close>-th element happens to hold.
\<close>

definition create_d_bins :: "(nat \<Rightarrow> int) \<Rightarrow> host \<Rightarrow> error + host" where
  "create_d_bins fresh s =
     (if length (bins s) * 4 = 0 then Inl InvalidBufferSize
      else Inr (s\<lparr>d_bins := map fresh [0..<length (bins s)]\<rparr>))"

text \<open>
  \<^verbatim>\<open>opencl.queue.enqueueNDRangeKernel(cnt_pos_kernel, cl::NullRange, cl::NDRange(n),
  cl::NDRange(local_sz));\<close> with the arguments \<^verbatim>\<open>d_input\<close> and \<^verbatim>\<open>d_bins\<close>. OpenCL 1.2
  refuses a global size of zero and a global size that the local size does not divide.
  The device is taken to accept work-groups of 256 work-items; the work-groups and the
  lanes of each run in ascending order.
\<close>

definition enqueue_count_positive :: "int \<Rightarrow> host \<Rightarrow> error + host" where
  "enqueue_count_positive n s =
     (if n \<le> 0 then Inl InvalidGlobalWorkSize
      else if n mod local_sz \<noteq> 0 then Inl InvalidWorkGroupSize
      else (case count_positive (d_input s) (nat local_sz)
                   [0..<nat n div nat local_sz] [0..<nat local_sz] (d_bins s) of
              Inl e \<Rightarrow> Inl e
            | Inr r \<Rightarrow>
                Inr (s\<lparr>d_bins := r,
                       queue := queue s @ [NDRangeKernel ''count_positive'' (nat n) (nat local_sz)]\<rparr>)))"

text \<open>\<^verbatim>\<open>cl::copy(opencl.queue, d_bins, std::begin(bins), std::end(bins));\<close>\<close>

definition copy_bins :: "host \<Rightarrow> error + host" where
  "copy_bins s =
     Inr (s\<lparr>bins := take (length (bins s)) (d_bins s), queue := queue s @ [CopyOut ''d_bins'']\<rparr>)"

text \<open>
  \<^verbatim>\<open>verify_vector(result, result_gpu);\<close> The helper is not among the sources; the state
  records the two vectors it is called with.
\<close>

definition call_verify_vector :: "host \<Rightarrow> error + host" where
  "call_verify_vector s = Inr (s\<lparr>verify_args := Some (result s, result_gpu s)\<rparr>)"

text \<open>
  A run of a list of statements returns the states it went through, the first one
  included, and the error that ended it, if any.
\<close>

fun run_steps :: "('s \<Rightarrow> error + 's) list \<Rightarrow> 's \<Rightarrow> 's list \<times> error option" where
  "run_steps [] s = ([s], None)"
| "run_steps (f # fs) s =
     (case f s of
        Inl e \<Rightarrow> ([s], Some e)
      | Inr s' \<Rightarrow> (s # fst (run_steps fs s'), snd (run_steps fs s')))"

definition profile_steps :: "int \<Rightarrow> real list \<Rightarrow> (nat \<Rightarrow> int) \<Rightarrow> (host \<Rightarrow> error + host) list" where
  "profile_steps n rnd fresh =
     [make_input rnd, make_bins n, make_results, reserve_result n, reserve_result_gpu n,
      host_filter, create_d_input, create_d_bins fresh, enqueue_count_positive n,
      copy_bins, call_verify_vector]"

definition profile_filter :: "int \<Rightarrow> real list \<Rightarrow> (nat \<Rightarrow> int) \<Rightarrow> host list \<times> error option" where
  "profile_filter n rnd fresh = run_steps (profile_steps n rnd fresh) init"

declare count_loop.simps [simp del]

section \<open>Integers and schedules\<close>

lemma int32_id: "- 2147483648 \<le> x \<Longrightarrow> x < 2147483648 \<Longrightarrow> int32 x = x"
  unfolding int32_def by simp

lemma to_int_id: "x < 2147483648 \<Longrightarrow> to_int x = int x"
  unfolding to_int_def by (simp add: int32_id)

lemma to_int_0: "to_int 0 = 0"
  by (simp add: to_int_id)

text \<open>A schedule in which every item either does nothing or performs one idempotent update.\<close>

lemma run_items_single_writer:
  assumes step: "\<And>i s. i \<in> set sched \<Longrightarrow> s = mem \<or> s = upd mem \<Longrightarrow>
                   body i s = (if writer i then Inr (upd mem) else Inr s)"
    and some: "\<exists>i \<in> set sched. writer i"
  shows "run_items body sched mem = Inr (upd mem)"
proof -
  have settled: "set xs \<subseteq> set sched \<Longrightarrow> run_items body xs (upd mem) = Inr (upd mem)" for xs
    by (induction xs) (auto simp: step)
  have "set xs \<subseteq> set sched \<Longrightarrow> \<exists>i \<in> set xs. writer i \<Longrightarrow> run_items body xs mem = Inr (upd mem)" for xs
  proof (induction xs)
    case Nil
    then show ?case by simp
  next
    case (Cons x xs)
    show ?case
    proof (cases "writer x")
      case True
      with Cons.prems settled[of xs] show ?thesis by (simp add: step)
    next
      case False
      with Cons show ?thesis by (simp add: step)
    qed
  qed
  with some show ?thesis by blast
qed

lemma filter_kernel_run:
  assumes "0 \<in> set sched" "f_res_size mem \<noteq> []"
  shows "filter_kernel gsz lsz sched mem = Inr (mem\<lparr>f_res_size := (f_res_size mem)[0 := to_int gsz]\<rparr>)"
  unfolding filter_kernel_def
proof (rule run_items_single_writer[where writer = "\<lambda>i. to_int i = 0"])
  show "\<exists>i\<in>set sched. to_int i = 0"
    using assms(1) to_int_0 by blast
next
  fix i s
  assume "s = mem \<or> s = mem\<lparr>f_res_size := (f_res_size mem)[0 := to_int gsz]\<rparr>"
  then show "filter_item gsz lsz i s =
      (if to_int i = 0 then Inr (mem\<lparr>f_res_size := (f_res_size mem)[0 := to_int gsz]\<rparr>) else Inr s)"
    using assms(2) by (auto simp: filter_item_def Let_def)
qed

lemma run_items_error_origin:
  "run_items body sched mem = Inl e \<Longrightarrow> \<exists>i \<in> set sched. \<exists>s. body i s = Inl e"
  by (induction sched arbitrary: mem) (auto split: sum.splits)

lemma run_items_success_all:
  "run_items body sched mem = Inr mem' \<Longrightarrow> i \<in> set sched \<Longrightarrow> \<exists>s s'. body i s = Inr s'"
  by (induction sched arbitrary: mem) (auto split: sum.splits)

lemma load_lane_error: "load_lane a lsz k t buff = Inl e \<Longrightarrow> e = OutOfBounds"
  by (auto simp: load_lane_def Let_def split: if_splits)

lemma load_lane_eval:
  assumes "t < lsz" "lsz \<le> BUFFSIZE" "k * lsz + lsz \<le> 2147483648"
  shows "load_lane a lsz k t buff =
     (if length a \<le> k * lsz + t \<or> length buff \<le> t then Inl OutOfBounds
      else Inr (buff[t := Some (a ! (k * lsz + t))]))"
proof -
  have "1 \<le> lsz" using assms(1) by simp
  then have "k * 1 \<le> k * lsz" by (rule mult_le_mono2)
  then have "k \<le> k * lsz" by simp
  with assms(1,3) have k: "k < 2147483648" by linarith
  have m: "lsz < 2147483648" "t < 2147483648" using assms by (simp_all add: BUFFSIZE_def)
  have km: "k * lsz + t < 2147483648" "k * lsz < 2147483648" using assms by simp_all
  have i1: "int32 (int k * int lsz) = int (k * lsz)"
    using to_int_id[OF km(2)] by (simp add: to_int_def)
  have i2: "int32 (int (k * lsz) + int t) = int (k * lsz + t)"
    using to_int_id[OF km(1)] by (simp add: to_int_def)
  have idx: "int32 (int32 (int k * int lsz) + int t) = int (k * lsz + t)"
    by (simp only: i1 i2)
  show ?thesis
    unfolding load_lane_def Let_def to_int_id[OF k] to_int_id[OF m(1)] to_int_id[OF m(2)] idx
    by (simp del: of_nat_add of_nat_mult)
qed

lemma load_lane_in_range:
  assumes "t < lsz" "lsz \<le> BUFFSIZE" "k * lsz + lsz \<le> length a" "k * lsz + lsz \<le> 2147483648"
    and "length buff = BUFFSIZE"
  shows "load_lane a lsz k t buff = Inr (buff[t := Some (a ! (k * lsz + t))])"
  using load_lane_eval[OF assms(1,2,4)] assms by simp

lemma stored_length: "length (stored a lsz k lanes buff) = length buff"
  unfolding stored_def by (induction lanes arbitrary: buff) auto

lemma stored_nth:
  "t \<in> set lanes \<Longrightarrow> t < length buff \<Longrightarrow> stored a lsz k lanes buff ! t = Some (a ! (k * lsz + t))"
  unfolding stored_def
proof (induction lanes arbitrary: buff)
  case Nil
  then show ?case by simp
next
  case (Cons x xs)
  show ?case
  proof (cases "t \<in> set xs")
    case True
    with Cons show ?thesis by simp
  next
    case False
    with Cons.prems have tx: "t = x" by simp
    have keep: "u \<notin> set ys \<Longrightarrow> fold (\<lambda>t b. b[t := Some (a ! (k * lsz + t))]) ys b ! u = b ! u" for ys b u
      by (induction ys arbitrary: b) auto
    from False Cons.prems tx show ?thesis by (simp add: keep)
  qed
qed

lemma load_phase:
  assumes "set lanes \<subseteq> {0..<lsz}" "lsz \<le> BUFFSIZE" "k * lsz + lsz \<le> length a"
    "k * lsz + lsz \<le> 2147483648" "length buff = BUFFSIZE"
  shows "run_items (load_lane a lsz k) lanes buff = Inr (stored a lsz k lanes buff)"
  using assms(1,5)
proof (induction lanes arbitrary: buff)
  case Nil
  then show ?case by (simp add: stored_def)
next
  case (Cons t ts)
  from Cons.prems have "t < lsz" by simp
  then have "load_lane a lsz k t buff = Inr (buff[t := Some (a ! (k * lsz + t))])"
    using assms(2-4) Cons.prems(2) by (rule load_lane_in_range)
  moreover have "run_items (load_lane a lsz k) ts (buff[t := Some (a ! (k * lsz + t))])
      = Inr (stored a lsz k ts (buff[t := Some (a ! (k * lsz + t))]))"
    using Cons.prems by (intro Cons.IH) auto
  ultimately show ?case by (simp add: stored_def)
qed

lemma count_loop_counts:
  assumes "m \<le> length buff" "\<forall>i<m. buff ! i = Some (f i)"
  shows "j \<le> m \<Longrightarrow>
    count_loop buff (int m) (int j) cnt = Inr (cnt + int (length (filter (\<lambda>i. 0 < f i) [j..<m])))"
proof (induction "m - j" arbitrary: j cnt)
  case 0
  then have "j = m" by simp
  then show ?case by (subst count_loop.simps) simp
next
  case (Suc d)
  then have lt: "j < m" by simp
  have next_j: "int j + 1 = int (Suc j)" by simp
  have rec: "count_loop buff (int m) (int (Suc j)) c
      = Inr (c + int (length (filter (\<lambda>i. 0 < f i) [Suc j..<m])))" for c
    using Suc.hyps(2) lt by (intro Suc.hyps(1)) auto
  have cell: "buff ! j = Some (f j)" using assms(2) lt by simp
  show ?case
    apply (subst count_loop.simps)
    using lt assms(1) apply (simp add: cell next_j rec upt_conv_Cons del: of_nat_Suc)
    done
qed


lemma count_phase:
  assumes zero: "0 \<in> set lanes" and lsz: "lsz \<le> BUFFSIZE" "lsz \<le> length buff"
    and k: "k < length res" "k < 2147483648"
    and cells: "\<forall>i<lsz. buff ! i = Some (f i)"
  shows "run_items (count_lane lsz k buff) lanes res
     = Inr (res[k := int (length (filter (\<lambda>i. 0 < f i) [0..<lsz]))])"
proof (rule run_items_single_writer[where writer = "\<lambda>t. to_int t = 0"])
  show "\<exists>t\<in>set lanes. to_int t = 0"
    using zero to_int_0 by blast
next
  fix t s
  let ?c = "int (length (filter (\<lambda>i. 0 < f i) [0..<lsz]))"
  assume s: "s = res \<or> s = res[k := ?c]"
  have m: "to_int lsz = int lsz"
    using lsz(1) by (intro to_int_id) (simp add: BUFFSIZE_def)
  have loop: "count_loop buff (int lsz) 0 0 = Inr ?c"
    using count_loop_counts[OF lsz(2) cells, of 0 0] by simp
  have upd: "s[k := ?c] = res[k := ?c]" and len: "length s = length res"
    using s by auto
  show "count_lane lsz k buff t s = (if to_int t = 0 then Inr (res[k := ?c]) else Inr s)"
    unfolding count_lane_def Let_def m to_int_id[OF k(2)] loop
    using k(1) len upd by simp
qed

lemma shifted_count:
  "length (filter (\<lambda>i. 0 < a ! (k * L + i)) [0..<L]) = length (filter (\<lambda>i. 0 < (a::real list) ! i) [k * L ..< k * L + L])"
proof -
  have "[k * L ..< k * L + L] = map (\<lambda>i. i + k * L) [0..<L]"
    by (simp add: map_add_upt add.commute)
  then show ?thesis
    by (simp add: filter_map comp_def add.commute)
qed

lemma group_in_range:
  assumes "0 < lsz" "lsz \<le> BUFFSIZE" "set lanes = {0..<lsz}"
    and "k * lsz + lsz \<le> length a" "k * lsz + lsz \<le> 2147483648" "k < length res"
  shows "count_positive_group a lsz lanes k res = Inr (res[k := block_count a lsz k])"
proof -
  let ?buff = "stored a lsz k lanes (replicate BUFFSIZE None)"
  have load: "run_items (load_lane a lsz k) lanes (replicate BUFFSIZE None) = Inr ?buff"
    using assms by (intro load_phase) auto
  have cells: "\<forall>i<lsz. ?buff ! i = Some (a ! (k * lsz + i))"
    using assms(2,3) by (auto intro!: stored_nth)
  have "1 \<le> lsz" using assms(1) by simp
  then have "k * 1 \<le> k * lsz" by (rule mult_le_mono2)
  then have "k \<le> k * lsz" by simp
  with assms(1,5) have k: "k < 2147483648" by linarith
  have "run_items (count_lane lsz k ?buff) lanes res
      = Inr (res[k := int (length (filter (\<lambda>i. 0 < a ! (k * lsz + i)) [0..<lsz]))])"
    using assms(1,2,3,6) k cells by (intro count_phase) (auto simp: stored_length)
  then show ?thesis
    unfolding count_positive_group_def load block_count_def by (simp add: shifted_count)
qed

lemma group_out_of_range:
  assumes "0 < lsz" "lsz \<le> BUFFSIZE" "set lanes = {0..<lsz}"
    and "length a < k * lsz + lsz" "k * lsz + lsz \<le> 2147483648"
  shows "count_positive_group a lsz lanes k res = Inl OutOfBounds"
proof -
  let ?t = "lsz - 1"
  have t: "?t < lsz" "?t \<in> set lanes" using assms(1,3) by auto
  have fails: "load_lane a lsz k ?t buff = Inl OutOfBounds" for buff
    using load_lane_eval[OF t(1) assms(2,5), of a buff] assms(1,4) by auto
  have "run_items (load_lane a lsz k) lanes (replicate BUFFSIZE None) = Inl OutOfBounds"
  proof (cases "run_items (load_lane a lsz k) lanes (replicate BUFFSIZE None)")
    case (Inl e)
    from run_items_error_origin[OF this] load_lane_error have "e = OutOfBounds" by blast
    with Inl show ?thesis by simp
  next
    case (Inr buff)
    from run_items_success_all[OF this t(2)] fails show ?thesis by auto
  qed
  then show ?thesis
    unfolding count_positive_group_def by simp
qed

lemma run_items_pointwise:
  assumes "\<And>k r. k \<in> set groups \<Longrightarrow> length r = n \<Longrightarrow> body k r = Inr (r[k := c k])"
    and "length res = n" "\<forall>k\<in>set groups. k < n"
  shows "\<exists>res'. run_items body groups res = Inr res' \<and> length res' = n \<and>
           (\<forall>k\<in>set groups. res' ! k = c k) \<and> (\<forall>k. k \<notin> set groups \<longrightarrow> res' ! k = res ! k)"
  using assms
proof (induction groups arbitrary: res)
  case Nil
  then show ?case by simp
next
  case (Cons g gs)
  have first: "body g res = Inr (res[g := c g])" using Cons.prems by simp
  have "\<exists>res'. run_items body gs (res[g := c g]) = Inr res' \<and> length res' = n \<and>
           (\<forall>k\<in>set gs. res' ! k = c k) \<and> (\<forall>k. k \<notin> set gs \<longrightarrow> res' ! k = (res[g := c g]) ! k)"
    using Cons.prems by (intro Cons.IH) auto
  then obtain res' where r: "run_items body gs (res[g := c g]) = Inr res'" "length res' = n"
      "\<forall>k\<in>set gs. res' ! k = c k" "\<forall>k. k \<notin> set gs \<longrightarrow> res' ! k = (res[g := c g]) ! k"
    by blast
  have "res' ! g = c g"
    using r(3,4) Cons.prems(2,3) by (cases "g \<in> set gs") auto
  with r first show ?case by auto
qed

lemma count_positive_run:
  assumes "0 < L" "L \<le> BUFFSIZE" "set lanes = {0..<L}" "length a < 2147483648"
    and "\<forall>k\<in>set groups. k * L + L \<le> length a \<and> k < length res"
  shows "\<exists>res'. count_positive a L groups lanes res = Inr res' \<and> length res' = length res \<and>
           (\<forall>k\<in>set groups. res' ! k = block_count a L k) \<and>
           (\<forall>k. k \<notin> set groups \<longrightarrow> res' ! k = res ! k)"
  unfolding count_positive_def
  using assms by (intro run_items_pointwise group_in_range) auto


section \<open>The claims about the kernel \<^verbatim>\<open>filter\<close>\<close>

text \<open>
  Claim C9. Whenever the kernel \<^verbatim>\<open>filter\<close> runs (a global size \<open>gsz > 0\<close>, every work-item
  of the ND-range scheduled, a \<^verbatim>\<open>res_size\<close> buffer of at least one element), it ends with
  \<^verbatim>\<open>res_size[0]\<close> holding \<^verbatim>\<open>n\<close>, the global work size converted to \<^verbatim>\<open>int\<close> (the global size
  itself when it is below \<open>2^31\<close>), whatever the input buffer holds, and it leaves the
  \<^verbatim>\<open>result\<close> buffer and the input buffer as they were.
\<close>

theorem filter_kernel_records_global_size:
  assumes "0 < gsz" "set sched = {0..<gsz}" "f_res_size mem \<noteq> []"
  shows "\<exists>mem'. filter_kernel gsz lsz sched mem = Inr mem' \<and>
           f_res_size mem' ! 0 = to_int gsz \<and>
           (gsz < 2147483648 \<longrightarrow> f_res_size mem' ! 0 = int gsz) \<and>
           f_result mem' = f_result mem \<and> f_input mem' = f_input mem"
proof -
  have "0 \<in> set sched" using assms(1,2) by simp
  from filter_kernel_run[OF this assms(3)] assms(3) show ?thesis
    by (simp add: to_int_id)
qed

text \<open>The kernel on six work-items in groups of two.\<close>

theorem filter_kernel_records_global_size_witness:
  "\<exists>mem'. filter_kernel 6 2 [0..<6]
        \<lparr>f_input = [-1, 2, -3, 4, 5, -6], f_res_size = [0], f_result = [0, 0, 0]\<rparr> = Inr mem' \<and>
      f_res_size mem' ! 0 = 6 \<and> f_result mem' = [0, 0, 0]"
  using filter_kernel_records_global_size[of 6 "[0..<6]"
      "\<lparr>f_input = [-1, 2, -3, 4, 5, -6], f_res_size = [0], f_result = [0, 0, 0]\<rparr>" 2]
  by (auto simp: to_int_def int32_def)

section \<open>The claims about the kernel \<^verbatim>\<open>count_positive\<close>\<close>

text \<open>
  Claim C2. For an input \<open>a\<close> whose length \<open>N\<close> is a multiple of the block size \<open>L\<close>, with
  \<open>0 < L \<le> 1024\<close> and \<open>N\<close> in the range of \<^verbatim>\<open>int\<close>, the kernel \<^verbatim>\<open>count_positive\<close> run over
  the \<open>N div L\<close> work-groups of \<open>L\<close> lanes, in any order of the groups and of the lanes, on
  a \<^verbatim>\<open>result\<close> buffer with an element for each group, ends without error and leaves in
  \<^verbatim>\<open>result[k]\<close>, for every block index \<open>k\<close>, the number of indices \<open>i\<close> in
  \<open>k * L .. k * L + L - 1\<close> with \<open>a[i] > 0\<close>.
\<close>

theorem count_positive_counts_blocks:
  assumes "0 < L" "L \<le> BUFFSIZE" "L dvd length a" "length a < 2147483648"
    and "set groups = {0..<length a div L}" "set lanes = {0..<L}"
    and "length a div L \<le> length res"
  shows "\<exists>res'. count_positive a L groups lanes res = Inr res' \<and> length res' = length res \<and>
           (\<forall>k < length a div L.
              res' ! k = int (length (filter (\<lambda>i. 0 < a ! i) [k * L ..< k * L + L])))"
proof -
  have blocks: "k * L + L \<le> length a" if "k < length a div L" for k
  proof -
    from that have "Suc k \<le> length a div L" by simp
    then have "Suc k * L \<le> length a div L * L" by (rule mult_le_mono1)
    also have "\<dots> \<le> length a" by simp
    finally show ?thesis by (simp add: add.commute)
  qed
  have "\<forall>k\<in>set groups. k * L + L \<le> length a \<and> k < length res"
    using assms(5,7) blocks by auto
  from count_positive_run[OF assms(1,2,6,4) this] assms(5) show ?thesis
    by (auto simp: block_count_def)
qed


text \<open>Three blocks of two elements, the last one with two positive elements.\<close>

theorem count_positive_counts_blocks_witness:
  "\<exists>res'. count_positive [1, -1, 2, -2, 3, 4] 2 [0..<3] [0..<2] [7, 7, 7] = Inr res' \<and>
      length res' = 3 \<and> res' ! 0 = 1 \<and> res' ! 1 = 1 \<and> res' ! 2 = 2"
proof -
  let ?a = "[1, -1, 2, -2, 3, 4] :: real list"
  have n: "length ?a div 2 = 3" by simp
  have h: "0 < (2::nat)" "2 \<le> BUFFSIZE" "2 dvd length ?a" "length ?a < 2147483648"
    "set [0..<3] = {0..<length ?a div 2}" "set [0..<2] = {0..<2::nat}"
    "length ?a div 2 \<le> length [7, 7, 7::int]"
    unfolding n by (simp_all add: BUFFSIZE_def)
  from count_positive_counts_blocks[OF h]
  obtain res' where run: "count_positive ?a 2 [0..<3] [0..<2] [7, 7, 7] = Inr res'"
    and len: "length res' = length [7, 7, 7::int]"
    and cnt: "\<forall>k < length ?a div 2. res' ! k = int (length (filter (\<lambda>i. 0 < ?a ! i) [k * 2 ..< k * 2 + 2]))"
    by blast
  have blocks: "[0 ..< 2] = [0, Suc 0]" "[2 ..< 4] = [2, 3]" "[4 ..< 6] = [4, 5::nat]"
    by (simp_all add: upt_rec)
  have "res' ! 0 = 1" "res' ! 1 = 1" "res' ! 2 = 2"
    using cnt[rule_format, of 0] cnt[rule_format, of 1] cnt[rule_format, of 2]
    by (simp_all add: blocks)
  with run len show ?thesis by simp
qed

text \<open>
  Claim C3, as amended. The kernel has no masking: every lane executes
  \<^verbatim>\<open>buff[t] = a[k * m + t]\<close> before the barrier. A work-group \<open>k\<close> of \<open>L\<close> lanes therefore
  reads out of bounds exactly when one of its lanes has a global index \<open>\<ge> N\<close>, that is
  when \<open>N < k * L + L\<close>; otherwise all its lanes have a global index below \<open>N\<close> and the
  group stores the count of its block in \<^verbatim>\<open>result[k]\<close>.
\<close>

theorem count_positive_group_unmasked:
  assumes "0 < L" "L \<le> BUFFSIZE" "set lanes = {0..<L}"
    and "k * L + L \<le> 2147483648" "k < length res"
  shows "count_positive_group a L lanes k res =
     (if length a < k * L + L then Inl OutOfBounds
      else Inr (res[k := int (length (filter (\<lambda>i. 0 < a ! i) [k * L ..< k * L + L]))]))"
proof (cases "length a < k * L + L")
  case True
  with group_out_of_range[OF assms(1,2,3) _ assms(4), of a res] show ?thesis by simp
next
  case False
  then have "k * L + L \<le> length a" by simp
  from group_in_range[OF assms(1,2,3) this assms(4,5)] False show ?thesis
    by (simp add: block_count_def)
qed

text \<open>A group inside the input, and a group beyond its end.\<close>

theorem count_positive_group_unmasked_witness:
  "count_positive_group [1, -1, 2, -2] 2 [0..<2] 1 [7, 7] = Inr [7, 1] \<and>
   count_positive_group [1, -1, 2, -2] 2 [0..<2] 2 [7, 7, 7] = Inl OutOfBounds"
proof -
  have lanes: "set [0..<2] = {0..<2::nat}" by simp
  have h: "0 < (2::nat)" "2 \<le> BUFFSIZE" by (simp_all add: BUFFSIZE_def)
  have blocks: "[2 ..< 4] = [2, 3::nat]"
    by (simp add: upt_rec)
  have "count_positive_group [1, -1, 2, -2] 2 [0..<2] 1 [7, 7] = Inr [7, 1]"
    by (subst count_positive_group_unmasked[OF h lanes]) (simp_all add: blocks)
  moreover have "count_positive_group [1, -1, 2, -2] 2 [0..<2] 2 [7, 7, 7] = Inl OutOfBounds"
    by (subst count_positive_group_unmasked[OF h lanes]) simp_all
  ultimately show ?thesis by simp
qed

text \<open>
  An input of three elements in blocks of two: lane 1 of work-group 1 has the global index
  3, and its load is out of bounds.
\<close>

theorem count_positive_tail_lane_counterexample:
  "count_positive_group [1, -1, 2] 2 [0, 1] 1 [0, 0] = Inl OutOfBounds"
proof -
  have lanes: "set [0, 1] = {0..<2::nat}" by auto
  show ?thesis
    by (rule group_out_of_range[OF _ _ lanes]) (simp_all add: BUFFSIZE_def)
qed

text \<open>The block counts of the input \<open>[1, -1, 2, -2, 3, -3]\<close> in blocks of two.\<close>

lemma block_boundary_blocks:
  "count_positive [1, -1, 2, -2, 3, -3] 2 [0, 1, 2] [0, 1] [r0, r1, r2] = Inr [1, 1, 1]"
proof -
  have blocks: "[0 ..< 2] = [0, Suc 0]" "[2 ..< 4] = [2, 3]" "[4 ..< 6] = [4, 5::nat]"
    by (simp_all add: upt_rec)
  have lanes: "set [0, 1] = {0..<2::nat}" by auto
  have "\<forall>k\<in>set [0, 1, 2::nat]. k * 2 + 2 \<le> length [1, -1, 2, -2, 3, -3::real] \<and> k < length [r0, r1, r2]"
    by simp
  from count_positive_run[OF _ _ lanes _ this]
  obtain res' where r: "count_positive [1, -1, 2, -2, 3, -3] 2 [0, 1, 2] [0, 1] [r0, r1, r2] = Inr res'"
    "length res' = 3" "res' ! 0 = 1" "res' ! 1 = 1" "res' ! 2 = 1"
    by (auto simp: BUFFSIZE_def block_count_def blocks)
  from r(2-5) have "res' = [1, 1, 1]"
    by (auto simp: length_Suc_conv eval_nat_numeral)
  with r(1) show ?thesis by simp
qed

text \<open>
  Claim C7. With block size \<open>L = 2\<close> and the input \<open>[1, -1, 2, -2, 3, -3]\<close> the pipeline
  should produce the block counts \<open>[1, 1, 1]\<close>, the offsets \<open>[0, 1, 2]\<close> and the output
  \<open>[1, 2, 3]\<close>. The code produces the counts, with \<^verbatim>\<open>count_positive\<close>, and stops there:
  no kernel computes offsets, and the kernel \<^verbatim>\<open>filter\<close>, the only one with an output
  buffer, returns that buffer with whatever it held before and stores in \<^verbatim>\<open>res_size[0]\<close>
  the global size 6, not the number 3 of positive elements.
\<close>

theorem block_boundary_stops_after_counts:
  "count_positive [1, -1, 2, -2, 3, -3] 2 [0, 1, 2] [0, 1] [r0, r1, r2] = Inr [1, 1, 1] \<and>
   filter_kernel 6 2 [0, 1, 2, 3, 4, 5]
       \<lparr>f_input = [1, -1, 2, -2, 3, -3], f_res_size = [sz], f_result = out\<rparr>
     = Inr \<lparr>f_input = [1, -1, 2, -2, 3, -3], f_res_size = [6], f_result = out\<rparr>"
proof
  show "count_positive [1, -1, 2, -2, 3, -3] 2 [0, 1, 2] [0, 1] [r0, r1, r2] = Inr [1, 1, 1]"
    by (rule block_boundary_blocks)
next
  have "to_int 6 = 6" by (simp add: to_int_id)
  then show "filter_kernel 6 2 [0, 1, 2, 3, 4, 5]
       \<lparr>f_input = [1, -1, 2, -2, 3, -3], f_res_size = [sz], f_result = out\<rparr>
     = Inr \<lparr>f_input = [1, -1, 2, -2, 3, -3], f_res_size = [6], f_result = out\<rparr>"
    by (subst filter_kernel_run) simp_all
qed

text \<open>
  Claim C5. The destination indices of the output writes should be exactly
  \<open>0 .. total_count - 1\<close>. On the input \<open>[-1, 2, -3, 4, 5, -6]\<close>, which has three positive
  elements, the kernel \<^verbatim>\<open>filter\<close> changes no element of the output buffer: it only stores
  the global size 6 in \<^verbatim>\<open>res_size[0]\<close>.
\<close>

theorem filter_kernel_writes_no_output:
  "filter_kernel 6 2 [0, 1, 2, 3, 4, 5]
      \<lparr>f_input = [-1, 2, -3, 4, 5, -6], f_res_size = [0], f_result = [0, 0, 0]\<rparr>
    = Inr \<lparr>f_input = [-1, 2, -3, 4, 5, -6], f_res_size = [6], f_result = [0, 0, 0]\<rparr>"
  by (simp add: filter_kernel_def filter_item_def to_int_def int32_def)

section \<open>The host function \<^verbatim>\<open>filter\<close>: claims\<close>

lemma sequential_filter_eq: "sequential_filter xs p = filter p xs"
  by (induction xs) auto


lemma sequential_filter_replicate:
  "p x \<Longrightarrow> sequential_filter (replicate n x) p = replicate n x"
  by (induction n) auto


text \<open>
  Claim C8. Filtering the output of the host function \<^verbatim>\<open>filter\<close> a second time with the
  same predicate returns that output unchanged, for every input and every predicate.
\<close>

theorem host_filter_idempotent:
  "sequential_filter (sequential_filter xs p) p = sequential_filter xs p"
  by (simp add: sequential_filter_eq)


section \<open>Runs of \<^verbatim>\<open>profile_filter\<close>\<close>

lemma run_steps_nonempty: "fst (run_steps fs s) \<noteq> []"
  by (cases fs) (auto split: sum.splits)

lemma run_steps_invariant:
  assumes "P s" and "\<And>f t t'. f \<in> set fs \<Longrightarrow> P t \<Longrightarrow> f t = Inr t' \<Longrightarrow> P t'"
  shows "\<forall>t \<in> set (fst (run_steps fs s)). P t"
  using assms
proof (induction fs arbitrary: s)
  case Nil
  then show ?case by simp
next
  case (Cons f fs)
  show ?case
  proof (cases "f s")
    case (Inl e)
    with Cons.prems(1) show ?thesis by simp
  next
    case (Inr s')
    have "P s'" using Cons.prems Inr by auto
    then have "\<forall>t \<in> set (fst (run_steps fs s')). P t"
      using Cons.prems(2) by (intro Cons.IH) auto
    with Inr Cons.prems(1) show ?thesis by simp
  qed
qed

lemma count_positive_ascending:
  assumes "0 < L" "L \<le> BUFFSIZE" "B * L \<le> length a" "length a < 2147483648" "length res = B"
  shows "count_positive a L [0..<B] [0..<L] res = Inr (map (block_count a L) [0..<B])"
proof -
  have blocks: "\<forall>k\<in>set [0..<B]. k * L + L \<le> length a \<and> k < length res"
  proof
    fix k assume "k \<in> set [0..<B]"
    then have k: "k < B" by simp
    then have "Suc k * L \<le> B * L" by (intro mult_le_mono1) simp
    with assms(3,5) k show "k * L + L \<le> length a \<and> k < length res"
      by (simp add: add.commute)
  qed
  have lanes: "set [0..<L] = {0..<L}" by simp
  from count_positive_run[OF assms(1,2) lanes assms(4) blocks]
  obtain res' where r: "count_positive a L [0..<B] [0..<L] res = Inr res'" "length res' = length res"
    "\<forall>k\<in>set [0..<B]. res' ! k = block_count a L k"
    by auto
  have "res' = map (block_count a L) [0..<B]"
    using r(2,3) assms(5) by (intro nth_equalityI) auto
  with r(1) show ?thesis by simp
qed

lemma cpp_div_nonneg: "0 \<le> n \<Longrightarrow> cpp_div n 256 = n div 256"
  unfolding cpp_div_def by (cases "n = 0") auto

lemma profile_filter_completes:
  assumes "0 < n" "n < 2147483648" "n mod 256 = 0" "length rnd = nat n"
  shows "snd (profile_filter n rnd fresh) = None"
    and "last (fst (profile_filter n rnd fresh)) =
      \<lparr>input = rnd, bins = map (block_count rnd 256) [0..<nat n div 256],
       result = sequential_filter rnd (\<lambda>x. 0 < x), result_gpu = [],
       d_input = rnd, d_bins = map (block_count rnd 256) [0..<nat n div 256],
       queue = [CopyIn ''d_input'', NDRangeKernel ''count_positive'' (nat n) 256,
                CopyOut ''d_bins''],
       verify_args = Some (sequential_filter rnd (\<lambda>x. 0 < x), [])\<rparr>"
proof -
  let ?B = "nat n div 256"
  have c: "cpp_div n 256 = n div 256" using assms(1) by (simp add: cpp_div_nonneg)
  have B: "nat (n div 256) = ?B" by (simp add: nat_div_distrib)
  have Bpos: "0 < ?B" "\<not> n div 256 < 0" using assms(1,3) by (auto simp: nat_div_distrib[symmetric])
  have n: "n \<noteq> 0" "\<not> n < 0" "\<not> n \<le> 0" using assms(1) by simp_all
  have "?B * 256 \<le> length rnd" using assms(4) by simp
  then have kern: "count_positive rnd 256 [0..<?B] [0..<256] (map fresh [0..<?B])
      = Inr (map (block_count rnd 256) [0..<?B])"
    using assms by (intro count_positive_ascending) (simp_all add: BUFFSIZE_def)
  note steps = make_input_def make_bins_def make_results_def reserve_result_def
        reserve_result_gpu_def host_filter_def create_d_input_def create_d_bins_def
        enqueue_count_positive_def copy_bins_def call_verify_vector_def init_def Let_def
        local_sz_def c B Bpos kern assms(3,4) n
  show "snd (profile_filter n rnd fresh) = None"
    unfolding profile_filter_def profile_steps_def by (simp add: steps)
  show "last (fst (profile_filter n rnd fresh)) =
      \<lparr>input = rnd, bins = map (block_count rnd 256) [0..<nat n div 256],
       result = sequential_filter rnd (\<lambda>x. 0 < x), result_gpu = [],
       d_input = rnd, d_bins = map (block_count rnd 256) [0..<nat n div 256],
       queue = [CopyIn ''d_input'', NDRangeKernel ''count_positive'' (nat n) 256,
                CopyOut ''d_bins''],
       verify_args = Some (sequential_filter rnd (\<lambda>x. 0 < x), [])\<rparr>"
    unfolding profile_filter_def profile_steps_def by (simp add: steps)
qed


lemma profile_steps_keep_result_gpu:
  assumes "f \<in> set (profile_steps n rnd fresh)" "f t = Inr t'"
    and "result_gpu t = [] \<and> (\<forall>r g. verify_args t = Some (r, g) \<longrightarrow> g = [])"
  shows "result_gpu t' = [] \<and> (\<forall>r g. verify_args t' = Some (r, g) \<longrightarrow> g = [])"
  using assms
  unfolding profile_steps_def make_input_def make_bins_def make_results_def reserve_result_def
    reserve_result_gpu_def host_filter_def create_d_input_def create_d_bins_def
    enqueue_count_positive_def copy_bins_def call_verify_vector_def Let_def
  by (auto split: if_splits sum.splits)


text \<open>
  Claim C10. In every execution of \<^verbatim>\<open>profile_filter\<close>, whatever \<open>n\<close>, the input and the
  initial content of the device memory, \<^verbatim>\<open>result_gpu\<close> is empty in every state the run goes
  through, and a call of \<^verbatim>\<open>verify_vector\<close> has the empty vector as its second argument.
  And the call is reached: for a positive \<open>n\<close> that 256 divides, with an input of \<open>n\<close>
  elements, the run ends without error after calling \<^verbatim>\<open>verify_vector\<close> with an empty
  \<^verbatim>\<open>result_gpu\<close>.
\<close>

theorem result_gpu_never_written:
  "(\<forall>s \<in> set (fst (profile_filter n rnd fresh)).
       result_gpu s = [] \<and> (\<forall>r g. verify_args s = Some (r, g) \<longrightarrow> g = [])) \<and>
   (0 < n \<and> n < 2147483648 \<and> n mod 256 = 0 \<and> length rnd = nat n \<longrightarrow>
       snd (profile_filter n rnd fresh) = None \<and>
       map_option snd (verify_args (last (fst (profile_filter n rnd fresh)))) = Some [])"
proof (intro conjI impI)
  show "\<forall>s \<in> set (fst (profile_filter n rnd fresh)).
       result_gpu s = [] \<and> (\<forall>r g. verify_args s = Some (r, g) \<longrightarrow> g = [])"
    unfolding profile_filter_def
  proof (rule run_steps_invariant)
    show "result_gpu init = [] \<and> (\<forall>r g. verify_args init = Some (r, g) \<longrightarrow> g = [])"
      by (simp add: init_def)
  next
    fix f t t'
    assume "f \<in> set (profile_steps n rnd fresh)" "f t = Inr t'"
      "result_gpu t = [] \<and> (\<forall>r g. verify_args t = Some (r, g) \<longrightarrow> g = [])"
    then show "result_gpu t' = [] \<and> (\<forall>r g. verify_args t' = Some (r, g) \<longrightarrow> g = [])"
      by (rule profile_steps_keep_result_gpu)
  qed
next
  assume "0 < n \<and> n < 2147483648 \<and> n mod 256 = 0 \<and> length rnd = nat n"
  then have v: "0 < n" "n < 2147483648" "n mod 256 = 0" "length rnd = nat n" by simp_all
  show "snd (profile_filter n rnd fresh) = None"
    by (rule profile_filter_completes(1)[OF v])
  show "map_option snd (verify_args (last (fst (profile_filter n rnd fresh)))) = Some []"
    by (simp add: profile_filter_completes(2)[OF v])
qed

text \<open>A run on 256 positive elements.\<close>

theorem result_gpu_never_written_witness:
  "snd (profile_filter 256 (replicate 256 1) (\<lambda>i. 0)) = None \<and>
   map_option snd (verify_args (last (fst (profile_filter 256 (replicate 256 1) (\<lambda>i. 0))))) = Some [] \<and>
   result_gpu (last (fst (profile_filter 256 (replicate 256 1) (\<lambda>i. 0)))) = []"
proof -
  let ?run = "profile_filter 256 (replicate 256 1) (\<lambda>i. 0)"
  note main = result_gpu_never_written[of 256 "replicate 256 1" "\<lambda>i. 0"]
  have mem: "last (fst ?run) \<in> set (fst ?run)"
    unfolding profile_filter_def by (intro last_in_set run_steps_nonempty)
  have valid: "0 < (256::int) \<and> (256::int) < 2147483648 \<and> (256::int) mod 256 = 0 \<and>
      length (replicate 256 (1::real)) = nat 256"
    by simp
  from main[THEN conjunct1, THEN bspec, OF mem]
  have "result_gpu (last (fst ?run)) = []" by (rule conjunct1)
  moreover from main[THEN conjunct2, THEN mp, OF valid]
  have "snd ?run = None \<and> map_option snd (verify_args (last (fst ?run))) = Some []" .
  ultimately show ?thesis by (intro conjI) (erule conjunct1, erule conjunct2, assumption)
qed

text \<open>
  Claim C1. The output of the device pipeline should equal, element for element, the
  output of the sequential filter. On an input of 256 elements, all of them 1,
  \<^verbatim>\<open>profile_filter\<close> calls \<^verbatim>\<open>verify_vector\<close> with the 256 elements of the sequential filter
  as \<^verbatim>\<open>result\<close> and with an empty \<^verbatim>\<open>result_gpu\<close>.
\<close>

theorem verify_vector_arguments_differ:
  "verify_args (last (fst (profile_filter 256 (replicate 256 1) (\<lambda>i. 0))))
     = Some (replicate 256 1, [])"
proof -
  have v: "0 < (256::int)" "(256::int) < 2147483648" "(256::int) mod 256 = 0"
    "length (replicate 256 (1::real)) = nat 256"
    by simp_all
  have f: "sequential_filter (replicate 256 (1::real)) (\<lambda>x. 0 < x) = replicate 256 1"
    by (rule sequential_filter_replicate) simp
  show ?thesis
    unfolding profile_filter_completes(2)[OF v] f by simp
qed

text \<open>
  Claim C4. A scan of the block counts should run between the counting phase and the
  compaction phase of every filter invocation. On an input of 512 elements the commands
  that \<^verbatim>\<open>profile_filter\<close> submits are the copy of the input, the kernel \<^verbatim>\<open>count_positive\<close>
  and the copy of the counts back to the host: no scan and no compaction follow.
\<close>

theorem only_count_positive_is_dispatched:
  "queue (last (fst (profile_filter 512 (replicate 256 1 @ replicate 256 (-1)) (\<lambda>i. 0))))
     = [CopyIn ''d_input'', NDRangeKernel ''count_positive'' 512 256, CopyOut ''d_bins'']"
proof -
  have v: "0 < (512::int)" "(512::int) < 2147483648" "(512::int) mod 256 = 0"
    "length (replicate 256 (1::real) @ replicate 256 (-1)) = nat 512"
    by simp_all
  show ?thesis
    unfolding profile_filter_completes(2)[OF v] by simp
qed

text \<open>
  Claim C6, as amended. For \<open>n \<ge> 0\<close> the Block Count Table \<^verbatim>\<open>bins\<close> is built with
  \<^verbatim>\<open>n / local_sz\<close> entries, the quotient rounded down, with \<^verbatim>\<open>local_sz = 256\<close>; that is
  \<open>\<lceil>n / 256\<rceil>\<close> exactly when 256 divides \<open>n\<close>, and there is no entry for a final short
  block. In a run that completes (a positive \<open>n\<close> that 256 divides) the table copied
  back from the device has these \<open>n div 256\<close> entries.
\<close>

theorem bins_has_floor_entries:
  assumes "0 \<le> n"
  shows "(\<exists>s'. make_bins n s = Inr s' \<and> int (length (bins s')) = n div 256) \<and>
         (n div 256 = \<lceil>real_of_int n / 256\<rceil> \<longleftrightarrow> n mod 256 = 0) \<and>
         (0 < n \<and> n < 2147483648 \<and> n mod 256 = 0 \<and> length rnd = nat n \<longrightarrow>
            int (length (bins (last (fst (profile_filter n rnd fresh))))) = n div 256)"
proof (intro conjI impI)
  have "0 \<le> n div 256" using assms by simp
  then show "\<exists>s'. make_bins n s = Inr s' \<and> int (length (bins s')) = n div 256"
    using assms by (simp add: make_bins_def local_sz_def cpp_div_nonneg Let_def)
next
  have "\<lceil>real_of_int n / 256\<rceil> = - ((- n) div 256)"
    using ceiling_divide_eq_div[of n 256] by simp
  moreover have "n div 256 = - ((- n) div 256) \<longleftrightarrow> n mod 256 = 0"
    by (simp add: zdiv_zminus1_eq_if)
  ultimately show "n div 256 = \<lceil>real_of_int n / 256\<rceil> \<longleftrightarrow> n mod 256 = 0"
    by simp
next
  assume "0 < n \<and> n < 2147483648 \<and> n mod 256 = 0 \<and> length rnd = nat n"
  then have v: "0 < n" "n < 2147483648" "n mod 256 = 0" "length rnd = nat n" by simp_all
  have "int (nat n div 256) = n div 256"
    using v(1) by (simp add: zdiv_int)
  then show "int (length (bins (last (fst (profile_filter n rnd fresh))))) = n div 256"
    unfolding profile_filter_completes(2)[OF v] by simp
qed


text \<open>The table for 257 elements, and the table of a run on 512 elements.\<close>

theorem bins_has_floor_entries_witness:
  "map_sum id (\<lambda>s. int (length (bins s))) (make_bins 257 init) = Inr 1 \<and>
   int (length (bins (last (fst (profile_filter 512 (replicate 512 1) (\<lambda>i. 0)))))) = 2"
proof -
  have a: "(0::int) \<le> 257" "(0::int) \<le> 512" by simp_all
  have valid: "0 < (512::int) \<and> (512::int) < 2147483648 \<and> (512::int) mod 256 = 0 \<and>
      length (replicate 512 (1::real)) = nat 512"
    by simp
  from bins_has_floor_entries[OF a(1), where s = init, THEN conjunct1]
  have "map_sum id (\<lambda>s. int (length (bins s))) (make_bins 257 init) = Inr 1"
    by auto
  moreover from bins_has_floor_entries[OF a(2), where rnd = "replicate 512 1" and fresh = "\<lambda>i. 0",
      THEN conjunct2, THEN conjunct2, THEN mp, OF valid]
  have "int (length (bins (last (fst (profile_filter 512 (replicate 512 1) (\<lambda>i. 0)))))) = 2"
    by simp
  ultimately show ?thesis by (rule conjI)
qed

text \<open>For 257 elements the table has one entry, not the two of \<open>\<lceil>257 / 256\<rceil>\<close>.\<close>

theorem short_block_counterexample:
  "map_sum id (\<lambda>s. int (length (bins s))) (make_bins 257 init) \<noteq> Inr \<lceil>257 / 256 :: real\<rceil>"
  by (simp add: make_bins_def local_sz_def cpp_div_def Let_def)

end
